theory Spec2Isabelle
  imports Complex_Main "HOL-Library.AList" "HOL-Library.Multiset"
begin

section \<open>Python values\<close>

text \<open>
  The benchmark is one Python module, \<^verbatim>\<open>benchmark_providers.py\<close>. Its functions are
  embedded below under their own names. Exceptions are values: a computation that may
  raise returns \<open>py_exception + 'a\<close>, with \<open>Inl\<close> the exception raised.
\<close>

datatype py_exception =
    AttributeError
  | JSONDecodeError
  | RequestException
  | ZeroDivisionError
  | FileNotFoundError
  | UnicodeEncodeError

text \<open>
  A Python float is an IEEE 754 double: a finite one, which is a rational number, or
  one of \<^verbatim>\<open>inf\<close> (\<open>Infinity True\<close>), \<^verbatim>\<open>-inf\<close> (\<open>Infinity False\<close>) and \<^verbatim>\<open>nan\<close>. The two
  zeros are one value.
\<close>

datatype pyfloat = Finite rat | Infinity bool | NaN

text \<open>
  Rounding to the nearest double, ties to the even significand: a double has 53
  significant bits, its exponent is at least \<open>-1022\<close> (below, the spacing stays
  \<open>pow2 (- 1074)\<close>), and what rounds to \<open>pow2 1024\<close> or more overflows to an infinity.
  \<open>bit_length\<close> is \<^verbatim>\<open>int.bit_length\<close>, \<open>ilog2 a\<close> the integer part of the binary
  logarithm of a positive rational.
\<close>

fun bit_length :: "nat \<Rightarrow> nat" where
  "bit_length n = (if n = 0 then 0 else Suc (bit_length (n div 2)))"

definition pow2 :: "int \<Rightarrow> rat" where
  "pow2 k = (if 0 \<le> k then 2 ^ nat k else 1 / 2 ^ nat (- k))"

definition round_half_even :: "rat \<Rightarrow> int" where
  "round_half_even r =
     (let f = \<lfloor>r\<rfloor>; d = r - of_int f
      in if d < 1 / 2 then f
         else if 1 / 2 < d then f + 1
         else if even f then f else f + 1)"

definition ilog2 :: "rat \<Rightarrow> int" where
  "ilog2 a =
     (let (n, d) = quotient_of a;
          k = int (bit_length (nat n)) - int (bit_length (nat d))
      in if pow2 k \<le> a then k else k - 1)"

definition round_double :: "rat \<Rightarrow> pyfloat" where
  "round_double x =
     (if x = 0 then Finite 0
      else
        (let a = \<bar>x\<bar>;
             q = max (ilog2 a) (- 1022) - 52;
             v = of_int (round_half_even (a / pow2 q)) * pow2 q
         in if pow2 1024 \<le> v then Infinity (0 < x)
            else Finite (if x < 0 then - v else v)))"

text \<open>
  The arithmetic of floats: the exact result, rounded. \<^verbatim>\<open>x / n\<close> with a float and an
  int converts the int to a float first and raises on a zero divisor.
\<close>

fun fneg :: "pyfloat \<Rightarrow> pyfloat" where
  "fneg (Finite a) = Finite (- a)"
| "fneg (Infinity s) = Infinity (\<not> s)"
| "fneg NaN = NaN"

fun fadd :: "pyfloat \<Rightarrow> pyfloat \<Rightarrow> pyfloat" where
  "fadd (Finite a) (Finite b) = round_double (a + b)"
| "fadd NaN y = NaN"
| "fadd x NaN = NaN"
| "fadd (Infinity s) (Infinity t) = (if s = t then Infinity s else NaN)"
| "fadd (Infinity s) (Finite b) = Infinity s"
| "fadd (Finite a) (Infinity t) = Infinity t"

definition fsub :: "pyfloat \<Rightarrow> pyfloat \<Rightarrow> pyfloat" where
  "fsub x y = fadd x (fneg y)"

fun fmul :: "pyfloat \<Rightarrow> pyfloat \<Rightarrow> pyfloat" where
  "fmul (Finite a) (Finite b) = round_double (a * b)"
| "fmul NaN y = NaN"
| "fmul x NaN = NaN"
| "fmul (Infinity s) (Infinity t) = Infinity (s = t)"
| "fmul (Infinity s) (Finite b) = (if b = 0 then NaN else Infinity (s = (0 < b)))"
| "fmul (Finite a) (Infinity t) = (if a = 0 then NaN else Infinity (t = (0 < a)))"

fun fdiv :: "pyfloat \<Rightarrow> pyfloat \<Rightarrow> py_exception + pyfloat" where
  "fdiv NaN y = (if y = Finite 0 then Inl ZeroDivisionError else Inr NaN)"
| "fdiv x NaN = Inr NaN"
| "fdiv (Finite a) (Finite b) =
     (if b = 0 then Inl ZeroDivisionError else Inr (round_double (a / b)))"
| "fdiv (Infinity s) (Finite b) =
     (if b = 0 then Inl ZeroDivisionError else Inr (Infinity (s = (0 < b))))"
| "fdiv (Finite a) (Infinity t) = Inr (Finite 0)"
| "fdiv (Infinity s) (Infinity t) = Inr NaN"

definition float_truediv_int :: "pyfloat \<Rightarrow> int \<Rightarrow> py_exception + pyfloat" where
  "float_truediv_int x n = fdiv x (round_double (of_int n))"

text \<open>
  What \<^verbatim>\<open>resp.json()\<close> returns: \<^verbatim>\<open>None\<close>, a bool, an int, a float, a str, a list or
  a dict with string keys. A dict is an association list in insertion order; the keys of
  a decoded dict are pairwise distinct, so \<open>map_of\<close> is its lookup. The same type serves
  for the Python values a \<^verbatim>\<open>map_func\<close> returns.
\<close>

datatype json =
    JNull
  | JBool bool
  | JInt int
  | JFloat pyfloat
  | JStr string
  | JArr "json list"
  | JObj "(string \<times> json) list"

text \<open>\<^verbatim>\<open>bool(v)\<close>: Python's truth value.\<close>

fun truthy :: "json \<Rightarrow> bool" where
  "truthy JNull = False"
| "truthy (JBool b) = b"
| "truthy (JInt i) = (i \<noteq> 0)"
| "truthy (JFloat f) = (f \<noteq> Finite 0)"
| "truthy (JStr s) = (s \<noteq> [])"
| "truthy (JArr xs) = (xs \<noteq> [])"
| "truthy (JObj kvs) = (kvs \<noteq> [])"

text \<open>
  \<^verbatim>\<open>v.get(k, d)\<close>: only a dict has the method; on every other value the attribute
  lookup raises \<^verbatim>\<open>AttributeError\<close>.
\<close>

fun dict_get :: "json \<Rightarrow> string \<Rightarrow> json \<Rightarrow> py_exception + json" where
  "dict_get (JObj kvs) k d = Inr (case map_of kvs k of None \<Rightarrow> d | Some v \<Rightarrow> v)"
| "dict_get v k d = Inl AttributeError"

text \<open>
  \<^verbatim>\<open>v.lower()\<close>: only a str has the method. Characters are code points below 256; the
  letters \<^verbatim>\<open>A\<close> to \<^verbatim>\<open>Z\<close> are the only ones whose lower case is an ASCII letter.
\<close>

definition lower_char :: "char \<Rightarrow> char" where
  "lower_char c =
     (let n = (of_char c :: nat) in if 65 \<le> n \<and> n \<le> 90 then char_of (n + 32) else c)"

fun str_lower :: "json \<Rightarrow> py_exception + json" where
  "str_lower (JStr s) = Inr (JStr (map lower_char s))"
| "str_lower v = Inl AttributeError"

text \<open>\<^verbatim>\<open>v == "..."\<close> against a str literal: only an equal str compares equal.\<close>

fun py_eq_str :: "json \<Rightarrow> string \<Rightarrow> bool" where
  "py_eq_str (JStr t) s = (t = s)"
| "py_eq_str v s = False"

text \<open>
  \<^verbatim>\<open>v == n\<close> against an int literal: numbers compare by value, and \<^verbatim>\<open>True\<close> and
  \<^verbatim>\<open>False\<close> are the ints 1 and 0.
\<close>

fun py_eq_int :: "json \<Rightarrow> int \<Rightarrow> bool" where
  "py_eq_int (JInt i) n = (i = n)"
| "py_eq_int (JBool b) n = ((if b then 1 else 0) = n)"
| "py_eq_int (JFloat (Finite q)) n = (q = of_int n)"
| "py_eq_int v n = False"

section \<open>The provider registry\<close>

datatype HttpMethod = GET | POST

fun method_value :: "HttpMethod \<Rightarrow> string" where
  "method_value GET = ''GET''"
| "method_value POST = ''POST''"

text \<open>
  A provider is a dict. \<^verbatim>\<open>test_provider\<close> indexes \<^verbatim>\<open>endpoint\<close> and \<^verbatim>\<open>map_func\<close>
  directly, so they are required fields; it reads \<^verbatim>\<open>name\<close>, \<^verbatim>\<open>method\<close>, \<^verbatim>\<open>headers\<close>
  and \<^verbatim>\<open>params\<close> with \<^verbatim>\<open>.get\<close> and a default, so they are optional (the key
  \<^verbatim>\<open>method\<close> is the field \<open>http_method\<close>). A header or parameter value is a str or
  \<^verbatim>\<open>None\<close>.
\<close>

record provider =
  name :: "string option"
  endpoint :: string
  http_method :: "HttpMethod option"
  headers :: "(string \<times> string option) list option"
  params :: "(string \<times> string option) list option"
  map_func :: "json \<Rightarrow> py_exception + json"

text \<open>The seven \<^verbatim>\<open>map_func\<close> lambdas of \<^verbatim>\<open>PROVIDERS\<close>, in the order of the list.\<close>

definition bouncer_map_func :: "json \<Rightarrow> py_exception + json" where
  "bouncer_map_func resp =
     (case dict_get resp ''domain'' (JObj []) of
        Inl e \<Rightarrow> Inl e
      | Inr d \<Rightarrow>
          (case dict_get d ''disposable'' JNull of
             Inl e \<Rightarrow> Inl e
           | Inr v \<Rightarrow> Inr (JBool (py_eq_str v ''yes''))))"

definition emailable_map_func :: "json \<Rightarrow> py_exception + json" where
  "emailable_map_func resp = dict_get resp ''disposable'' (JBool False)"

definition bouncify_map_func :: "json \<Rightarrow> py_exception + json" where
  "bouncify_map_func resp =
     (case dict_get resp ''disposable'' (JInt 0) of
        Inl e \<Rightarrow> Inl e
      | Inr v \<Rightarrow> Inr (JBool (py_eq_int v 1)))"

definition mailcheck_map_func :: "json \<Rightarrow> py_exception + json" where
  "mailcheck_map_func resp = dict_get resp ''disposable'' (JBool False)"

definition reoon_map_func :: "json \<Rightarrow> py_exception + json" where
  "reoon_map_func resp = dict_get resp ''is_disposable'' (JBool False)"

definition debounce_map_func :: "json \<Rightarrow> py_exception + json" where
  "debounce_map_func resp =
     (case dict_get resp ''disposable'' (JStr ''false'') of
        Inl e \<Rightarrow> Inl e
      | Inr v \<Rightarrow>
          (case str_lower v of
             Inl e \<Rightarrow> Inl e
           | Inr l \<Rightarrow> Inr (JBool (py_eq_str l ''true''))))"

definition kickbox_map_func :: "json \<Rightarrow> py_exception + json" where
  "kickbox_map_func resp = dict_get resp ''disposable'' (JBool False)"

text \<open>
  \<^verbatim>\<open>PROVIDERS\<close>. The API keys come from \<^verbatim>\<open>os.getenv\<close>, which is \<^verbatim>\<open>None\<close> for a
  variable that is not set; the environment is the parameter \<open>getenv\<close>.
\<close>

definition PROVIDERS :: "(string \<Rightarrow> string option) \<Rightarrow> provider list" where
  "PROVIDERS getenv =
     [ \<lparr> name = Some ''Bouncer'',
         endpoint = ''https://api.usebouncer.com/v1.1/email/verify'',
         http_method = Some GET,
         headers = Some [(''x-api-key'', getenv ''BOUNCER_API_KEY'')],
         params = Some [(''email'', None)],
         map_func = bouncer_map_func \<rparr>,
       \<lparr> name = Some ''Emailable'',
         endpoint = ''https://api.emailable.com/v1/verify'',
         http_method = Some GET,
         headers = Some [],
         params = Some [(''email'', None), (''api_key'', getenv ''EMAILABLE_API_KEY'')],
         map_func = emailable_map_func \<rparr>,
       \<lparr> name = Some ''Bouncify'',
         endpoint = ''https://api.bouncify.io/v1/verify'',
         http_method = Some GET,
         headers = Some [(''Accept'', Some ''*/*''), (''Content-Type'', Some ''application/json'')],
         params = Some [(''apikey'', getenv ''BOUNCIFY_API_KEY''), (''email'', None)],
         map_func = bouncify_map_func \<rparr>,
       \<lparr> name = Some ''Mail-Check'',
         endpoint = ''https://mailcheck.p.rapidapi.com'',
         http_method = Some GET,
         headers = Some [(''x-rapidapi-host'', Some ''mailcheck.p.rapidapi.com''),
                         (''x-rapidapi-key'', getenv ''MAILCHECK_API_KEY'')],
         params = Some [(''domain'', Some ''mailinator.com'')],
         map_func = mailcheck_map_func \<rparr>,
       \<lparr> name = Some ''Reoon'',
         endpoint = ''https://emailverifier.reoon.com/api/v1/verify'',
         http_method = Some GET,
         headers = Some [],
         params = Some [(''email'', None), (''key'', getenv ''REOON_API_KEY''),
                        (''mode'', Some ''quick'')],
         map_func = reoon_map_func \<rparr>,
       \<lparr> name = Some ''Debounce'',
         endpoint = ''https://disposable.debounce.io'',
         http_method = Some GET,
         headers = Some [],
         params = Some [(''email'', None)],
         map_func = debounce_map_func \<rparr>,
       \<lparr> name = Some ''Kickbox'',
         endpoint = ''https://api.kickbox.com/v2/verify'',
         http_method = Some GET,
         headers = Some [],
         params = Some [(''email'', None), (''apikey'', getenv ''KICKBOX_API_KEY'')],
         map_func = kickbox_map_func \<rparr> ]"

section \<open>Building the request parameters\<close>

text \<open>
  Lines 120 to 125 of \<^verbatim>\<open>test_provider\<close>: a fresh dict \<^verbatim>\<open>params\<close>, filled by one
  assignment \<^verbatim>\<open>params[k] = ...\<close> per item of the template, in the template's order.
  An assignment to a dict replaces the value of a key that is present and appends a key
  that is not, which is \<open>AList.update\<close>.
\<close>

definition provider_params :: "provider \<Rightarrow> (string \<times> string option) list" where
  "provider_params p = (case params p of None \<Rightarrow> [] | Some t \<Rightarrow> t)"

definition fill_value :: "string \<Rightarrow> string option \<Rightarrow> string" where
  "fill_value email v = (case v of None \<Rightarrow> email | Some s \<Rightarrow> s)"

definition build_params :: "provider \<Rightarrow> string \<Rightarrow> (string \<times> string) list" where
  "build_params p email =
     fold (\<lambda>(k, v) ps. AList.update k (fill_value email v) ps) (provider_params p) []"

section \<open>Loading the email lists\<close>

text \<open>
  \<^verbatim>\<open>load_emails\<close> opens the file in text mode and iterates over it. Text mode
  translates the line endings \<^verbatim>\<open>\r\n\<close> and \<^verbatim>\<open>\r\<close> to \<^verbatim>\<open>\n\<close>; iteration yields the
  lines one by one, each with its terminating \<^verbatim>\<open>\n\<close>, the last one without when the
  file does not end in one. The file system is a map from paths to the decoded text of
  the readable files; opening any other path raises.
\<close>

definition LF :: char where
  "LF = char_of (10 :: nat)"

definition CR :: char where
  "CR = char_of (13 :: nat)"

fun universal_newlines :: "string \<Rightarrow> string" where
  "universal_newlines [] = []"
| "universal_newlines (c # cs) =
     (if c = CR then
        (case cs of
           [] \<Rightarrow> [LF]
         | d # ds \<Rightarrow> if d = LF then LF # universal_newlines ds else LF # universal_newlines cs)
      else c # universal_newlines cs)"

fun readlines :: "string \<Rightarrow> string list" where
  "readlines [] = []"
| "readlines (c # cs) =
     (if c = LF then [LF] # readlines cs
      else (case readlines cs of [] \<Rightarrow> [[c]] | l # ls \<Rightarrow> (c # l) # ls))"

text \<open>
  \<^verbatim>\<open>str.isspace\<close> on the code points below 256: the controls 9 to 13 and 28 to 31, the
  space, NEL (133) and the no-break space (160).
\<close>

definition isspace :: "char \<Rightarrow> bool" where
  "isspace c =
     (let n = (of_char c :: nat)
      in (9 \<le> n \<and> n \<le> 13) \<or> (28 \<le> n \<and> n \<le> 31) \<or> n = 32 \<or> n = 133 \<or> n = 160)"

definition str_strip :: "string \<Rightarrow> string" where
  "str_strip s = rev (dropWhile isspace (rev (dropWhile isspace s)))"

definition load_emails :: "(string \<rightharpoonup> string) \<Rightarrow> string \<Rightarrow> py_exception + string list" where
  "load_emails fs path =
     (case fs path of
        None \<Rightarrow> Inl FileNotFoundError
      | Some raw \<Rightarrow>
          Inr (map str_strip
                 (filter (\<lambda>line. str_strip line \<noteq> []) (readlines (universal_newlines raw)))))"

text \<open>
  The loader in the specification's words: split the text at its line boundaries, trim
  each line, discard the empty ones, keep the order. \<open>split_on\<close> is \<^verbatim>\<open>str.split\<close>
  with a separator: the pieces between the separators, without them.
\<close>

fun split_on :: "char \<Rightarrow> string \<Rightarrow> string list" where
  "split_on sep [] = [[]]"
| "split_on sep (c # cs) =
     (if c = sep then [] # split_on sep cs
      else (case split_on sep cs of [] \<Rightarrow> [[c]] | l # ls \<Rightarrow> (c # l) # ls))"

definition spec_load :: "string \<Rightarrow> string list" where
  "spec_load raw =
     filter (\<lambda>line. line \<noteq> []) (map str_strip (split_on LF (universal_newlines raw)))"

section \<open>The request runner\<close>

text \<open>
  A \<^verbatim>\<open>Result\<close> is a dict with the keys \<^verbatim>\<open>predicted\<close>, \<^verbatim>\<open>expected\<close> and
  \<^verbatim>\<open>time_ms\<close>.
\<close>

record result =
  predicted :: bool
  expected :: bool
  time_ms :: pyfloat

text \<open>
  What \<^verbatim>\<open>test_provider\<close> hands to \<^verbatim>\<open>requests\<close>, and what comes back: the call raises
  (no connection, a timeout, an invalid URL), or it returns a response with a status
  code and a body, for which \<^verbatim>\<open>resp.json()\<close> returns the decoded value or raises
  (\<open>None\<close>: the body is not JSON). \<^verbatim>\<open>requests\<close> returns a response for every status
  code: the module never calls \<^verbatim>\<open>raise_for_status\<close>.
\<close>

record request =
  req_method :: string
  req_url :: string
  req_headers :: "(string \<times> string option) list"
  req_params :: "(string \<times> string) list"
  req_timeout :: nat

datatype http_outcome = Raises py_exception | Response nat "json option"

text \<open>
  The two \<^verbatim>\<open>print\<close> calls: line 147 prints the decoded body, line 152 the provider's
  name, the email and the exception caught. A \<^verbatim>\<open>print\<close> raises when standard output
  does not take the text (\<^verbatim>\<open>UnicodeEncodeError\<close> for a character outside its
  encoding, for one).
\<close>

datatype output_line = Data_line json | Error_line "string option" string py_exception

text \<open>
  The world outside the program: \<open>clock w n\<close> is what the \<open>n\<close>-th call of
  \<^verbatim>\<open>time.time()\<close> returns, \<open>network w n req\<close> what the \<open>n\<close>-th request does, and
  \<open>stdout w n line\<close> the exception the \<open>n\<close>-th \<^verbatim>\<open>print\<close> raises, if any. The state
  threaded through the run counts the clock readings and logs the requests sent and the
  lines printed.
\<close>

record world =
  clock :: "nat \<Rightarrow> pyfloat"
  network :: "nat \<Rightarrow> request \<Rightarrow> http_outcome"
  stdout :: "nat \<Rightarrow> output_line \<Rightarrow> py_exception option"

record run_state =
  ticks :: nat
  sent :: "request list"
  printed :: "output_line list"

definition time_time :: "world \<Rightarrow> run_state \<Rightarrow> pyfloat \<times> run_state" where
  "time_time w s = (clock w (ticks s), s\<lparr>ticks := Suc (ticks s)\<rparr>)"

definition send :: "world \<Rightarrow> request \<Rightarrow> run_state \<Rightarrow> http_outcome \<times> run_state" where
  "send w req s = (network w (length (sent s)) req, s\<lparr>sent := sent s @ [req]\<rparr>)"

definition py_print :: "world \<Rightarrow> output_line \<Rightarrow> run_state \<Rightarrow> py_exception option \<times> run_state" where
  "py_print w line s = (stdout w (length (printed s)) line, s\<lparr>printed := printed s @ [line]\<rparr>)"

definition upper_char :: "char \<Rightarrow> char" where
  "upper_char c =
     (let n = (of_char c :: nat) in if 97 \<le> n \<and> n \<le> 122 then char_of (n - 32) else c)"

text \<open>
  Lines 120 to 143: the request for one email. Both branches of the test on the method
  make the same call, \<^verbatim>\<open>requests.get(url, ...)\<close> being
  \<^verbatim>\<open>requests.request("get", url, ...)\<close>.
\<close>

definition build_request :: "provider \<Rightarrow> string \<Rightarrow> request" where
  "build_request p email =
     (let ps = build_params p email;
          url = endpoint p;
          m = map upper_char (method_value (case http_method p of None \<Rightarrow> GET | Some v \<Rightarrow> v))
      in \<lparr> req_method = (if m = ''GET'' then ''GET'' else m),
           req_url = url,
           req_headers = (case headers p of None \<Rightarrow> [] | Some h \<Rightarrow> h),
           req_params = ps,
           req_timeout = 10 \<rparr>)"

text \<open>
  Lines 132 to 148, the body of the \<^verbatim>\<open>try\<close>: \<open>Inl e\<close> when \<open>e\<close> is raised inside it,
  otherwise the elapsed time and the predicted flag. The body is printed before
  \<^verbatim>\<open>map_func\<close> is applied to it.
\<close>

definition attempt ::
  "world \<Rightarrow> provider \<Rightarrow> request \<Rightarrow> pyfloat \<Rightarrow> run_state
     \<Rightarrow> (py_exception + pyfloat \<times> bool) \<times> run_state"
where
  "attempt w p req start s =
     (let (out, s1) = send w req s in
      case out of
        Raises e \<Rightarrow> (Inl e, s1)
      | Response status body \<Rightarrow>
          (let (t, s2) = time_time w s1;
               elapsed = fmul (fsub t start) (Finite 1000)
           in case body of
                None \<Rightarrow> (Inl JSONDecodeError, s2)
              | Some data \<Rightarrow>
                  (let (pr, s3) = py_print w (Data_line data) s2
                   in case pr of
                        Some e \<Rightarrow> (Inl e, s3)
                      | None \<Rightarrow>
                          (case map_func p data of
                             Inl e \<Rightarrow> (Inl e, s3)
                           | Inr v \<Rightarrow> (Inr (elapsed, truthy v), s3)))))"

text \<open>
  Lines 120 to 154, one turn of the loop: the \<^verbatim>\<open>try\<close> with its handler
  \<^verbatim>\<open>except Exception\<close>, which reads the clock again, sets the flag to \<^verbatim>\<open>False\<close> and
  prints the error. Nothing catches what the handler's own \<^verbatim>\<open>print\<close> raises: \<open>Inl e\<close>
  is that exception leaving \<^verbatim>\<open>test_provider\<close>.
\<close>

definition test_one ::
  "world \<Rightarrow> provider \<Rightarrow> bool \<Rightarrow> string \<Rightarrow> run_state \<Rightarrow> (py_exception + result) \<times> run_state"
where
  "test_one w p expected_flag email s =
     (let req = build_request p email;
          (start, s1) = time_time w s;
          (r, s2) = attempt w p req start s1
      in case r of
           Inr (elapsed, predicted_flag) \<Rightarrow>
             (Inr \<lparr> predicted = predicted_flag, expected = expected_flag, time_ms = elapsed \<rparr>,
              s2)
         | Inl e \<Rightarrow>
             (let (t, s3) = time_time w s2;
                  elapsed = fmul (fsub t start) (Finite 1000);
                  (pr, s4) = py_print w (Error_line (name p) email e) s3
              in case pr of
                   Some e' \<Rightarrow> (Inl e', s4)
                 | None \<Rightarrow>
                     (Inr \<lparr> predicted = False, expected = expected_flag, time_ms = elapsed \<rparr>,
                      s4)))"

fun test_provider_loop ::
  "world \<Rightarrow> provider \<Rightarrow> bool \<Rightarrow> string list \<Rightarrow> result list \<Rightarrow> run_state
     \<Rightarrow> (py_exception + result list) \<times> run_state"
where
  "test_provider_loop w p expected_flag [] results s = (Inr results, s)"
| "test_provider_loop w p expected_flag (email # rest) results s =
     (let (r, s') = test_one w p expected_flag email s
      in case r of
           Inl e \<Rightarrow> (Inl e, s')
         | Inr v \<Rightarrow> test_provider_loop w p expected_flag rest (results @ [v]) s')"

definition test_provider ::
  "world \<Rightarrow> provider \<Rightarrow> string list \<Rightarrow> bool \<Rightarrow> run_state
     \<Rightarrow> (py_exception + result list) \<times> run_state"
where
  "test_provider w p email_list expected_flag s =
     test_provider_loop w p expected_flag email_list [] s"

section \<open>The scorer\<close>

text \<open>
  Lines 177 to 199 of \<^verbatim>\<open>main\<close>, the statistics of one provider's results. \<^verbatim>\<open>sum\<close>
  adds the items to 0 from left to right, ints exactly and floats with one rounding per
  addition (the float sum of CPython up to 3.11; later versions also carry a
  compensation term); \<^verbatim>\<open>/\<close> raises on a zero divisor. The quotient of two ints is kept as the
  exact rational: the float the program holds is this quotient, rounded once.
\<close>

definition py_sum :: "int list \<Rightarrow> int" where
  "py_sum xs = foldl (+) 0 xs"

definition py_sum_float :: "pyfloat list \<Rightarrow> pyfloat" where
  "py_sum_float xs = foldl fadd (Finite 0) xs"

definition py_truediv :: "rat \<Rightarrow> rat \<Rightarrow> py_exception + rat" where
  "py_truediv a b = (if b = 0 then Inl ZeroDivisionError else Inr (a / b))"

definition true_positives :: "result list \<Rightarrow> int" where
  "true_positives all_results =
     py_sum (map (\<lambda>r. 1) (filter (\<lambda>r. predicted r \<and> expected r) all_results))"

definition false_negatives :: "result list \<Rightarrow> int" where
  "false_negatives all_results =
     py_sum (map (\<lambda>r. 1) (filter (\<lambda>r. \<not> predicted r \<and> expected r) all_results))"

definition false_positives :: "result list \<Rightarrow> int" where
  "false_positives all_results =
     py_sum (map (\<lambda>r. 1) (filter (\<lambda>r. predicted r \<and> \<not> expected r) all_results))"

definition true_negatives :: "result list \<Rightarrow> int" where
  "true_negatives all_results =
     py_sum (map (\<lambda>r. 1) (filter (\<lambda>r. \<not> predicted r \<and> \<not> expected r) all_results))"

definition total_requests :: "result list \<Rightarrow> int" where
  "total_requests all_results = int (length all_results)"

definition avg_response_time :: "result list \<Rightarrow> py_exception + pyfloat" where
  "avg_response_time all_results =
     (if total_requests all_results \<noteq> 0
      then float_truediv_int (py_sum_float (map time_ms all_results))
             (total_requests all_results)
      else Inr (Finite 0))"

definition accuracy :: "result list \<Rightarrow> py_exception + rat" where
  "accuracy all_results =
     (if total_requests all_results \<noteq> 0
      then py_truediv (of_int (true_positives all_results + true_negatives all_results))
             (of_int (total_requests all_results))
      else Inr 0)"

definition precision :: "result list \<Rightarrow> py_exception + rat" where
  "precision all_results =
     (if true_positives all_results + false_positives all_results \<noteq> 0
      then py_truediv (of_int (true_positives all_results))
             (of_int (true_positives all_results + false_positives all_results))
      else Inr 0)"

definition recall :: "result list \<Rightarrow> py_exception + rat" where
  "recall all_results =
     (if true_positives all_results + false_negatives all_results \<noteq> 0
      then py_truediv (of_int (true_positives all_results))
             (of_int (true_positives all_results + false_negatives all_results))
      else Inr 0)"

text \<open>
  The values the summary record is built from, before the report rounds them. The
  divisions are evaluated in the order of the source; the first one to raise ends the
  computation.
\<close>

record report =
  Total_Requests :: int
  Average_Response :: pyfloat
  True_Positives :: int
  False_Negatives :: int
  False_Positives :: int
  True_Negatives :: int
  Accuracy :: rat
  Precision :: rat
  Recall :: rat

definition score :: "result list \<Rightarrow> py_exception + report" where
  "score all_results =
     (case avg_response_time all_results of
        Inl e \<Rightarrow> Inl e
      | Inr avg \<Rightarrow>
     (case accuracy all_results of
        Inl e \<Rightarrow> Inl e
      | Inr acc \<Rightarrow>
     (case precision all_results of
        Inl e \<Rightarrow> Inl e
      | Inr prec \<Rightarrow>
     (case recall all_results of
        Inl e \<Rightarrow> Inl e
      | Inr rec \<Rightarrow>
          Inr \<lparr> Total_Requests = total_requests all_results,
                Average_Response = avg,
                True_Positives = true_positives all_results,
                False_Negatives = false_negatives all_results,
                False_Positives = false_positives all_results,
                True_Negatives = true_negatives all_results,
                Accuracy = acc,
                Precision = prec,
                Recall = rec \<rparr>))))"

text \<open>
  The scorer in the specification's words: the four counts are the numbers of verdicts
  with each pair of flags, a rate is a quotient of counts, and 0 when the denominator
  is 0.
\<close>

definition spec_count :: "bool \<Rightarrow> bool \<Rightarrow> result list \<Rightarrow> int" where
  "spec_count pr ex verdicts =
     int (length (filter (\<lambda>v. predicted v = pr \<and> expected v = ex) verdicts))"

definition spec_rate :: "int \<Rightarrow> int \<Rightarrow> rat" where
  "spec_rate n d = (if d = 0 then 0 else of_int n / of_int d)"

section \<open>Auxiliary definitions for the properties\<close>

text \<open>The top-level key of the response object that each provider's \<^verbatim>\<open>map_func\<close> reads.\<close>

definition read_key :: "provider \<Rightarrow> string" where
  "read_key p =
     (if name p = Some ''Bouncer'' then ''domain''
      else if name p = Some ''Reoon'' then ''is_disposable''
      else ''disposable'')"





text \<open>
  Example worlds: a clock that advances a quarter of a second per reading; a standard
  output that takes every line; one that takes every line but a decoded body as the
  sixth \<^verbatim>\<open>print\<close>; one that takes no error line; a server that answers every request
  with status 500 and a JSON body; and a network whose first request raises, whose
  second gets a body that is not JSON, whose third gets a body on which Debounce's
  \<^verbatim>\<open>map_func\<close> raises, and whose later ones get status 404 with a JSON body.
\<close>

definition steady_clock :: "nat \<Rightarrow> pyfloat" where
  "steady_clock n = Finite (of_nat n / 4)"



definition ascii_stdout :: "nat \<Rightarrow> output_line \<Rightarrow> py_exception option" where
  "ascii_stdout n line =
     (case line of
        Data_line data \<Rightarrow> None
      | Error_line nm email e \<Rightarrow> Some UnicodeEncodeError)"


definition flaky_network :: "nat \<Rightarrow> request \<Rightarrow> http_outcome" where
  "flaky_network n req =
     (if n = 0 then Raises RequestException
      else if n = 1 then Response 200 None
      else if n = 2 then Response 200 (Some (JObj [(''disposable'', JBool True)]))
      else Response 404 (Some (JObj [(''disposable'', JStr ''TRUE'')])))"

text \<open>
  The doubles nearest to 0.1, 0.2 and 0.3, and three verdicts with these latencies.
\<close>

definition double_0_1 :: pyfloat where
  "double_0_1 = Finite (3602879701896397 / 36028797018963968)"

definition double_0_2 :: pyfloat where
  "double_0_2 = Finite (3602879701896397 / 18014398509481984)"

definition double_0_3 :: pyfloat where
  "double_0_3 = Finite (5404319552844595 / 18014398509481984)"

definition verdict_a :: result where
  "verdict_a = \<lparr> predicted = True, expected = True, time_ms = double_0_1 \<rparr>"

definition verdict_b :: result where
  "verdict_b = \<lparr> predicted = False, expected = True, time_ms = double_0_2 \<rparr>"

definition verdict_c :: result where
  "verdict_c = \<lparr> predicted = True, expected = False, time_ms = double_0_3 \<rparr>"

text \<open>
  Iterating over a text puts the terminator back on every piece of \<open>split_on LF\<close> but
  the last, and yields the last piece only when it is not empty.
\<close>

definition terminate :: "string list \<Rightarrow> string list" where
  "terminate ls = map (\<lambda>l. l @ [LF]) (butlast ls) @ (if last ls = [] then [] else [last ls])"

section \<open>Properties of the request parameters\<close>

lemma update_fresh: "k \<notin> fst ` set al \<Longrightarrow> AList.update k v al = al @ [(k, v)]"
  by (induction al) auto

lemma fold_update_fresh:
  "distinct (map fst t) \<Longrightarrow> fst ` set t \<inter> fst ` set acc = {} \<Longrightarrow>
   fold (\<lambda>(k, v) ps. AList.update k (f v) ps) t acc = acc @ map (\<lambda>(k, v). (k, f v)) t"
proof (induction t arbitrary: acc)
  case Nil
  then show ?case by simp
next
  case (Cons kv t)
  obtain k v where kv: "kv = (k, v)" by (cases kv)
  from Cons.prems have fresh: "k \<notin> fst ` set acc" by (auto simp: kv)
  have step: "AList.update k (f v) acc = acc @ [(k, f v)]"
    using fresh by (rule update_fresh)
  have "fst ` set t \<inter> fst ` set (acc @ [(k, f v)]) = {}"
    using Cons.prems by (auto simp: kv)
  with Cons.IH [of "acc @ [(k, f v)]"] Cons.prems show ?case
    by (simp add: kv step)
qed

text \<open>
  C7. For every provider whose parameter template is a dict (its keys are pairwise
  distinct) and every email, the request parameters are the template with every
  \<^verbatim>\<open>None\<close> value replaced by the email and every other value unchanged, in the
  template's order.
\<close>

theorem build_params_fills_template:
  assumes "distinct (map fst (provider_params p))"
  shows "build_params p email =
           map (\<lambda>(k, v). (k, case v of None \<Rightarrow> email | Some s \<Rightarrow> s)) (provider_params p)"
proof -
  have "build_params p email = [] @ map (\<lambda>(k, v). (k, fill_value email v)) (provider_params p)"
    unfolding build_params_def using assms by (intro fold_update_fresh) simp_all
  then show ?thesis by (simp add: fill_value_def)
qed

theorem build_params_fills_template_witness:
  "distinct (map fst (provider_params (PROVIDERS [''REOON_API_KEY'' \<mapsto> ''k123''] ! 4)))
   \<and> build_params (PROVIDERS [''REOON_API_KEY'' \<mapsto> ''k123''] ! 4) ''a@b.c'' =
       [(''email'', ''a@b.c''), (''key'', ''k123''), (''mode'', ''quick'')]"
  using build_params_fills_template [of "PROVIDERS [''REOON_API_KEY'' \<mapsto> ''k123''] ! 4" "''a@b.c''"]
  by (simp add: PROVIDERS_def provider_params_def)

lemma registry_params:
  "map (\<lambda>p. (name p, provider_params p)) (PROVIDERS getenv) =
     [(Some ''Bouncer'', [(''email'', None)]),
      (Some ''Emailable'', [(''email'', None), (''api_key'', getenv ''EMAILABLE_API_KEY'')]),
      (Some ''Bouncify'', [(''apikey'', getenv ''BOUNCIFY_API_KEY''), (''email'', None)]),
      (Some ''Mail-Check'', [(''domain'', Some ''mailinator.com'')]),
      (Some ''Reoon'', [(''email'', None), (''key'', getenv ''REOON_API_KEY''),
                        (''mode'', Some ''quick'')]),
      (Some ''Debounce'', [(''email'', None)]),
      (Some ''Kickbox'', [(''email'', None), (''apikey'', getenv ''KICKBOX_API_KEY'')])]"
  by (simp add: PROVIDERS_def provider_params_def)

lemma params_cases:
  assumes "p \<in> set (PROVIDERS getenv)"
  shows "(name p = Some ''Bouncer'' \<and> provider_params p = [(''email'', None)])
       \<or> (name p = Some ''Emailable'' \<and>
            provider_params p = [(''email'', None), (''api_key'', getenv ''EMAILABLE_API_KEY'')])
       \<or> (name p = Some ''Bouncify'' \<and>
            provider_params p = [(''apikey'', getenv ''BOUNCIFY_API_KEY''), (''email'', None)])
       \<or> (name p = Some ''Mail-Check'' \<and>
            provider_params p = [(''domain'', Some ''mailinator.com'')])
       \<or> (name p = Some ''Reoon'' \<and>
            provider_params p = [(''email'', None), (''key'', getenv ''REOON_API_KEY''),
                                 (''mode'', Some ''quick'')])
       \<or> (name p = Some ''Debounce'' \<and> provider_params p = [(''email'', None)])
       \<or> (name p = Some ''Kickbox'' \<and>
            provider_params p = [(''email'', None), (''apikey'', getenv ''KICKBOX_API_KEY'')])"
proof -
  have "(name p, provider_params p)
          \<in> set (map (\<lambda>p. (name p, provider_params p)) (PROVIDERS getenv))"
    unfolding set_map by (rule image_eqI [where x = p]) (simp_all add: assms)
  then show ?thesis
    unfolding registry_params by simp
qed

text \<open>
  C8. For the Mail-Check descriptor the request parameters are
  \<^verbatim>\<open>{"domain": "mailinator.com"}\<close> for every email, so they do not depend on the
  email; for every other descriptor of the registry the parameters carry the email
  under the key \<^verbatim>\<open>email\<close>.
\<close>

theorem mail_check_params_fixed:
  assumes "p \<in> set (PROVIDERS getenv)"
  shows "(name p = Some ''Mail-Check'' \<longrightarrow>
            build_params p email = [(''domain'', ''mailinator.com'')])
       \<and> (name p \<noteq> Some ''Mail-Check'' \<longrightarrow> (''email'', email) \<in> set (build_params p email))"
  using params_cases [OF assms]
proof (elim disjE conjE)
  assume "name p = Some ''Bouncer''" "provider_params p = [(''email'', None)]"
  then show ?thesis by (simp add: build_params_def fill_value_def)
next
  assume "name p = Some ''Emailable''"
    "provider_params p = [(''email'', None), (''api_key'', getenv ''EMAILABLE_API_KEY'')]"
  then show ?thesis by (simp add: build_params_def fill_value_def)
next
  assume "name p = Some ''Bouncify''"
    "provider_params p = [(''apikey'', getenv ''BOUNCIFY_API_KEY''), (''email'', None)]"
  then show ?thesis by (simp add: build_params_def fill_value_def)
next
  assume "name p = Some ''Mail-Check''"
    "provider_params p = [(''domain'', Some ''mailinator.com'')]"
  then show ?thesis by (simp add: build_params_def fill_value_def)
next
  assume "name p = Some ''Reoon''"
    "provider_params p = [(''email'', None), (''key'', getenv ''REOON_API_KEY''),
                          (''mode'', Some ''quick'')]"
  then show ?thesis by (simp add: build_params_def fill_value_def)
next
  assume "name p = Some ''Debounce''" "provider_params p = [(''email'', None)]"
  then show ?thesis by (simp add: build_params_def fill_value_def)
next
  assume "name p = Some ''Kickbox''"
    "provider_params p = [(''email'', None), (''apikey'', getenv ''KICKBOX_API_KEY'')]"
  then show ?thesis by (simp add: build_params_def fill_value_def)
qed

theorem mail_check_params_fixed_witness:
  "build_params (PROVIDERS Map.empty ! 3) ''a@mailinator.com'' = [(''domain'', ''mailinator.com'')]
   \<and> build_params (PROVIDERS Map.empty ! 3) ''b@gmail.com'' = [(''domain'', ''mailinator.com'')]
   \<and> (''email'', ''b@gmail.com'') \<in> set (build_params (PROVIDERS Map.empty ! 6) ''b@gmail.com'')"
  using mail_check_params_fixed [of "PROVIDERS Map.empty ! 3" Map.empty "''a@mailinator.com''"]
    mail_check_params_fixed [of "PROVIDERS Map.empty ! 3" Map.empty "''b@gmail.com''"]
    mail_check_params_fixed [of "PROVIDERS Map.empty ! 6" Map.empty "''b@gmail.com''"]
  by (simp add: PROVIDERS_def)

section \<open>Properties of the classification functions\<close>

lemma registry_map_funcs:
  "map (\<lambda>p. (name p, map_func p)) (PROVIDERS getenv) =
     [(Some ''Bouncer'', bouncer_map_func), (Some ''Emailable'', emailable_map_func),
      (Some ''Bouncify'', bouncify_map_func), (Some ''Mail-Check'', mailcheck_map_func),
      (Some ''Reoon'', reoon_map_func), (Some ''Debounce'', debounce_map_func),
      (Some ''Kickbox'', kickbox_map_func)]"
  by (simp add: PROVIDERS_def)

lemma map_func_cases:
  assumes "p \<in> set (PROVIDERS getenv)"
  shows "(name p = Some ''Bouncer'' \<and> map_func p = bouncer_map_func)
       \<or> (name p = Some ''Emailable'' \<and> map_func p = emailable_map_func)
       \<or> (name p = Some ''Bouncify'' \<and> map_func p = bouncify_map_func)
       \<or> (name p = Some ''Mail-Check'' \<and> map_func p = mailcheck_map_func)
       \<or> (name p = Some ''Reoon'' \<and> map_func p = reoon_map_func)
       \<or> (name p = Some ''Debounce'' \<and> map_func p = debounce_map_func)
       \<or> (name p = Some ''Kickbox'' \<and> map_func p = kickbox_map_func)"
proof -
  have "(name p, map_func p) \<in> set (map (\<lambda>p. (name p, map_func p)) (PROVIDERS getenv))"
    unfolding set_map by (rule image_eqI [where x = p]) (simp_all add: assms)
  then show ?thesis
    unfolding registry_map_funcs by simp
qed

text \<open>
  C2, as amended. For every descriptor of the registry, \<^verbatim>\<open>map_func\<close> applied to a
  decoded JSON object does not raise on a missing key and returns a value whose truth
  value is false: when the object lacks the top-level key the provider reads, and, for
  Bouncer, when the \<^verbatim>\<open>domain\<close> object lacks the key \<^verbatim>\<open>disposable\<close>. On an object it
  raises only for a field of the wrong type: Bouncer returns when \<^verbatim>\<open>domain\<close> is an
  object, Debounce when \<^verbatim>\<open>disposable\<close> is a str, and the other five on every object.
\<close>

theorem map_func_missing_key:
  assumes "p \<in> set (PROVIDERS getenv)"
  shows "(map_of kvs (read_key p) = None \<longrightarrow>
            (\<exists>v. map_func p (JObj kvs) = Inr v \<and> \<not> truthy v))
       \<and> (name p = Some ''Bouncer'' \<longrightarrow> map_of kvs ''domain'' = Some (JObj d) \<longrightarrow>
            (\<exists>v. map_func p (JObj kvs) = Inr v)
            \<and> (map_of d ''disposable'' = None \<longrightarrow> map_func p (JObj kvs) = Inr (JBool False)))
       \<and> (name p = Some ''Debounce'' \<longrightarrow> map_of kvs ''disposable'' = Some (JStr t) \<longrightarrow>
            (\<exists>v. map_func p (JObj kvs) = Inr v))
       \<and> (name p \<noteq> Some ''Bouncer'' \<longrightarrow> name p \<noteq> Some ''Debounce'' \<longrightarrow>
            (\<exists>v. map_func p (JObj kvs) = Inr v))"
  using map_func_cases [OF assms]
proof (elim disjE conjE)
  assume "name p = Some ''Bouncer''" "map_func p = bouncer_map_func"
  then show ?thesis by (simp add: read_key_def bouncer_map_func_def)
next
  assume "name p = Some ''Emailable''" "map_func p = emailable_map_func"
  then show ?thesis by (simp add: read_key_def emailable_map_func_def)
next
  assume "name p = Some ''Bouncify''" "map_func p = bouncify_map_func"
  then show ?thesis by (simp add: read_key_def bouncify_map_func_def split: sum.splits)
next
  assume "name p = Some ''Mail-Check''" "map_func p = mailcheck_map_func"
  then show ?thesis by (simp add: read_key_def mailcheck_map_func_def)
next
  assume "name p = Some ''Reoon''" "map_func p = reoon_map_func"
  then show ?thesis by (simp add: read_key_def reoon_map_func_def)
next
  assume "name p = Some ''Debounce''" "map_func p = debounce_map_func"
  then show ?thesis by (simp add: read_key_def debounce_map_func_def lower_char_def)
next
  assume "name p = Some ''Kickbox''" "map_func p = kickbox_map_func"
  then show ?thesis by (simp add: read_key_def kickbox_map_func_def)
qed

theorem map_func_missing_key_witness:
  "(\<exists>v. map_func (PROVIDERS Map.empty ! 5) (JObj [(''status'', JStr ''ok'')]) = Inr v \<and> \<not> truthy v)
   \<and> map_func (PROVIDERS Map.empty ! 0) (JObj [(''domain'', JObj [(''name'', JStr ''x.org'')])])
       = Inr (JBool False)
   \<and> (\<exists>v. map_func (PROVIDERS Map.empty ! 5) (JObj [(''disposable'', JStr ''true'')]) = Inr v)
   \<and> (\<exists>v. map_func (PROVIDERS Map.empty ! 6) (JObj [(''disposable'', JInt 7)]) = Inr v)"
  using map_func_missing_key [of "PROVIDERS Map.empty ! 5" Map.empty "[(''status'', JStr ''ok'')]"]
    map_func_missing_key [of "PROVIDERS Map.empty ! 0" Map.empty
      "[(''domain'', JObj [(''name'', JStr ''x.org'')])]" "[(''name'', JStr ''x.org'')]"]
    map_func_missing_key [of "PROVIDERS Map.empty ! 5" Map.empty
      "[(''disposable'', JStr ''true'')]" _ "''true''"]
    map_func_missing_key [of "PROVIDERS Map.empty ! 6" Map.empty "[(''disposable'', JInt 7)]"]
  by (simp add: PROVIDERS_def read_key_def)

text \<open>
  The claim as stated fails on a field of the wrong type. Bouncer's \<^verbatim>\<open>map_func\<close>
  raises when \<^verbatim>\<open>domain\<close> is a str, Debounce's raises when \<^verbatim>\<open>disposable\<close> is a bool,
  and Emailable's returns the str \<^verbatim>\<open>"no"\<close>, whose truth value is true.
\<close>

theorem map_func_not_total_counterexample:
  "map_func (PROVIDERS Map.empty ! 0) (JObj [(''domain'', JStr ''example.org'')]) = Inl AttributeError
   \<and> map_func (PROVIDERS Map.empty ! 5) (JObj [(''disposable'', JBool True)]) = Inl AttributeError
   \<and> map_func (PROVIDERS Map.empty ! 1) (JObj [(''disposable'', JStr ''no'')]) = Inr (JStr ''no'')
   \<and> truthy (JStr ''no'')"
  by (simp add: PROVIDERS_def bouncer_map_func_def debounce_map_func_def emailable_map_func_def)

section \<open>Properties of the loader\<close>

lemma split_on_nonempty: "split_on sep s \<noteq> []"
  by (induction s) (auto split: list.splits)

lemma readlines_split_on: "readlines s = terminate (split_on LF s)"
proof (induction s)
  case Nil
  show ?case by (simp add: terminate_def)
next
  case (Cons c cs)
  obtain l ls where sp: "split_on LF cs = l # ls"
    using split_on_nonempty [of LF cs] by (cases "split_on LF cs") auto
  show ?case
  proof (cases "c = LF")
    case True
    then show ?thesis
      using Cons.IH by (simp add: terminate_def sp)
  next
    case False
    then show ?thesis
      using Cons.IH by (cases ls) (auto simp: terminate_def sp)
  qed
qed

lemma isspace_LF: "isspace LF"
  by (simp add: isspace_def LF_def)

lemma str_strip_terminated: "str_strip (l @ [LF]) = str_strip l"
proof (cases "\<forall>c \<in> set l. isspace c")
  case True
  have a: "dropWhile isspace l = []"
    using True by simp
  have b: "dropWhile isspace (l @ [LF]) = []"
    unfolding dropWhile_eq_Nil_conv using True by (simp add: isspace_LF)
  show ?thesis by (simp only: str_strip_def a b)
next
  case False
  then have "dropWhile isspace (l @ [LF]) = dropWhile isspace l @ [LF]"
    by (auto simp: dropWhile_append1)
  then show ?thesis by (simp add: str_strip_def isspace_LF)
qed

lemma strip_terminate:
  "ls \<noteq> [] \<Longrightarrow>
   filter (\<lambda>l. l \<noteq> []) (map str_strip (terminate ls)) = filter (\<lambda>l. l \<noteq> []) (map str_strip ls)"
proof -
  assume ne: "ls \<noteq> []"
  have str_strip_Nil: "str_strip [] = []" by (simp add: str_strip_def)
  have "filter (\<lambda>l. l \<noteq> []) (map str_strip (terminate ls))
      = filter (\<lambda>l. l \<noteq> []) (map str_strip (butlast ls @ [last ls]))"
    by (simp add: terminate_def comp_def str_strip_terminated str_strip_Nil)
  with ne show ?thesis by simp
qed

text \<open>
  C9. For every readable file, \<^verbatim>\<open>load_emails\<close> returns the lines of the file, each
  with the surrounding whitespace trimmed, without the lines that are empty after
  trimming, in the order of the file.
\<close>

theorem load_emails_trims_and_filters:
  assumes "fs path = Some raw"
  shows "load_emails fs path = Inr (spec_load raw)"
proof -
  have "map str_strip (filter (\<lambda>line. str_strip line \<noteq> []) ls)
      = filter (\<lambda>l. l \<noteq> []) (map str_strip ls)" for ls
    by (simp add: filter_map comp_def)
  then show ?thesis
    using assms
    by (simp add: load_emails_def spec_load_def readlines_split_on strip_terminate
        split_on_nonempty)
qed

theorem load_emails_trims_and_filters_witness:
  "load_emails [''missed.txt'' \<mapsto> ''  a@mailinator.com '' @ [CR, LF, LF] @ ''b@x.org''
                  @ [CR] @ ''    '' @ [LF] @ ''c@y.org''] ''missed.txt''
     = Inr [''a@mailinator.com'', ''b@x.org'', ''c@y.org'']"
proof -
  let ?raw = "''  a@mailinator.com '' @ [CR, LF, LF] @ ''b@x.org''
                  @ [CR] @ ''    '' @ [LF] @ ''c@y.org''"
  let ?fs = "[''missed.txt'' \<mapsto> ?raw]"
  have e: "spec_load ?raw = [''a@mailinator.com'', ''b@x.org'', ''c@y.org'']"
    by code_simp
  have h: "?fs ''missed.txt'' = Some ?raw"
    by simp
  show ?thesis
    using load_emails_trims_and_filters [of ?fs "''missed.txt''" ?raw, OF h] by (simp only: e)
qed

section \<open>Properties of the float arithmetic\<close>

text \<open>
  \<open>ilog2\<close> is the binary exponent, so a rational in the range of the normal doubles
  rounds to the multiple of its spacing that \<open>round_half_even\<close> picks; and the double of
  a non-zero int is not zero, so that the division of a float by a non-zero int returns.
\<close>

declare bit_length.simps [simp del]

lemma pow2_powi: "pow2 k = 2 powi k"
  by (simp add: pow2_def power_int_def inverse_eq_divide power_one_over)

lemma pow2_pos: "0 < pow2 k"
  by (simp add: pow2_powi)

lemma pow2_mono: "j \<le> k \<Longrightarrow> pow2 j \<le> pow2 k"
  by (simp add: pow2_powi power_int_increasing)

lemma bit_length_lower: "0 < n \<Longrightarrow> 2 ^ (bit_length n - 1) \<le> n"
proof (induction n rule: bit_length.induct)
  case (1 n)
  show ?case
  proof (cases "n div 2 = 0")
    case True
    with "1.prems" have "n = 1" by presburger
    then show ?thesis
      by (simp add: bit_length.simps [of "Suc 0"] bit_length.simps [of 0])
  next
    case False
    then have pos: "0 < n div 2" by simp
    from "1.IH" [OF _ pos] "1.prems" have ih: "2 ^ (bit_length (n div 2) - 1) \<le> n div 2"
      by simp
    have bl: "0 < bit_length (n div 2)"
      using pos by (subst bit_length.simps) simp
    have eq: "bit_length n - 1 = bit_length (n div 2)"
      using "1.prems" by (subst bit_length.simps) simp
    have "(2::nat) ^ (bit_length n - 1) = 2 ^ bit_length (n div 2)"
      by (simp only: eq)
    also have "\<dots> = 2 * 2 ^ (bit_length (n div 2) - 1)"
      using bl by (cases "bit_length (n div 2)") simp_all
    also have "\<dots> \<le> 2 * (n div 2)"
      using ih by simp
    also have "\<dots> \<le> n"
      by simp
    finally show ?thesis .
  qed
qed

lemma bit_length_upper: "n < 2 ^ bit_length n"
proof (induction n rule: bit_length.induct)
  case (1 n)
  show ?case
  proof (cases "n = 0")
    case True
    then show ?thesis by simp
  next
    case False
    from "1.IH" [OF False] have "n div 2 < 2 ^ bit_length (n div 2)" .
    then have "n < 2 * 2 ^ bit_length (n div 2)" by linarith
    moreover have "bit_length n = Suc (bit_length (n div 2))"
      using False by (subst bit_length.simps) simp
    ultimately show ?thesis by simp
  qed
qed


lemma pow2_diff_nat: "pow2 (int m - int k) = 2 ^ m / 2 ^ k"
proof -
  have "pow2 (int m - int k) = 2 powi (int m - int k)" by (rule pow2_powi)
  also have "\<dots> = 2 powi int m / 2 powi int k"
    by (rule power_int_diff) simp
  also have "\<dots> = 2 ^ m / 2 ^ k"
    by (simp only: power_int_of_nat)
  finally show ?thesis .
qed

lemma ilog2_cases: "ilog2 a = k \<Longrightarrow> pow2 k \<le> a \<or>
   k = int (bit_length (nat (fst (quotient_of a)))) - int (bit_length (nat (snd (quotient_of a)))) - 1"
  by (auto simp: ilog2_def Let_def split: prod.splits if_splits)


lemma ilog2_le:
  assumes "0 < a"
  shows "pow2 (ilog2 a) \<le> a"
proof -
  obtain n d where q: "quotient_of a = (n, d)"
    by (cases "quotient_of a")
  have d: "0 < d" using q by (rule quotient_of_denom_pos)
  have a: "a = of_int n / of_int d" using q by (rule quotient_of_div)
  have n: "0 < n"
    using assms d unfolding a by (simp add: zero_less_divide_iff)
  define bn where "bn = bit_length (nat n)"
  define bd where "bd = bit_length (nat d)"
  have lo: "2 ^ (bn - 1) \<le> nat n"
    unfolding bn_def using n by (intro bit_length_lower) simp
  have hi: "nat d < 2 ^ bd"
    unfolding bd_def by (rule bit_length_upper)
  have "(of_nat (2 ^ (bn - 1)) :: rat) \<le> of_nat (nat n)"
    using lo by (simp only: of_nat_le_iff)
  then have lo': "(2::rat) ^ (bn - 1) \<le> of_int n"
    using n by simp
  have "(of_nat (nat d) :: rat) \<le> of_nat (2 ^ bd)"
    using hi by (simp only: of_nat_le_iff less_imp_le)
  then have hi': "(of_int d :: rat) \<le> 2 ^ bd"
    using d by simp
  have bnpos: "0 < bn"
    unfolding bn_def using n by (subst bit_length.simps) simp
  have "pow2 (int (bn - 1) - int bd) = 2 ^ (bn - 1) / 2 ^ bd"
    by (rule pow2_diff_nat)
  also have "\<dots> \<le> of_int n / of_int d"
  proof (rule frac_le)
    show "(0::rat) \<le> of_int n" using n by simp
    show "(2::rat) ^ (bn - 1) \<le> of_int n" by (rule lo')
    show "(0::rat) < of_int d" using d by simp
    show "(of_int d :: rat) \<le> 2 ^ bd" by (rule hi')
  qed
  finally have below: "pow2 (int (bn - 1) - int bd) \<le> a"
    unfolding a .
  have idx: "int (bn - 1) - int bd = int bn - int bd - 1"
    using bnpos by simp
  from ilog2_cases [OF refl, of a] show ?thesis
  proof
    assume "pow2 (ilog2 a) \<le> a"
    then show ?thesis .
  next
    assume "ilog2 a = int (bit_length (nat (fst (quotient_of a))))
              - int (bit_length (nat (snd (quotient_of a)))) - 1"
    then have "ilog2 a = int bn - int bd - 1"
      by (simp only: q fst_conv snd_conv bn_def bd_def)
    then show ?thesis
      using below by (simp only: idx)
  qed
qed

lemma round_half_even_ge_floor: "\<lfloor>r\<rfloor> \<le> round_half_even r"
  by (simp add: round_half_even_def Let_def)

lemma round_double_nonzero:
  assumes "1 \<le> \<bar>x\<bar>"
  shows "round_double x \<noteq> Finite 0"
proof -
  define a where "a = \<bar>x\<bar>"
  define q where "q = max (ilog2 a) (- 1022) - 52"
  define m where "m = round_half_even (a / pow2 q)"
  have a1: "1 \<le> a" and apos: "0 < a"
    using assms by (simp_all add: a_def)
  have "pow2 q \<le> a"
  proof (cases "- 1022 \<le> ilog2 a")
    case True
    then have "q \<le> ilog2 a" by (simp add: q_def)
    then have "pow2 q \<le> pow2 (ilog2 a)" by (rule pow2_mono)
    also have "\<dots> \<le> a" using apos by (rule ilog2_le)
    finally show ?thesis .
  next
    case False
    then have "q \<le> 0" by (simp add: q_def)
    then have "pow2 q \<le> pow2 0" by (rule pow2_mono)
    also have "\<dots> = 1" by (simp add: pow2_def)
    finally show ?thesis using a1 by simp
  qed
  then have "1 \<le> a / pow2 q"
    using pow2_pos [of q] by (simp add: le_divide_eq)
  then have "1 \<le> \<lfloor>a / pow2 q\<rfloor>" by simp
  then have m1: "1 \<le> m"
    unfolding m_def using round_half_even_ge_floor [of "a / pow2 q"] by linarith
  have v: "0 < of_int m * pow2 q"
    using m1 pow2_pos [of q] by simp
  have x0: "x \<noteq> 0" using assms by auto
  show ?thesis
    using v x0
    by (auto simp: round_double_def Let_def a_def [symmetric] q_def [symmetric] m_def [symmetric])
qed

lemma fdiv_nonzero: "y \<noteq> Finite 0 \<Longrightarrow> \<exists>z. fdiv x y = Inr z"
  by (cases x; cases y) auto

lemma float_truediv_int_total: "n \<noteq> 0 \<Longrightarrow> \<exists>z. float_truediv_int x n = Inr z"
proof -
  assume "n \<noteq> 0"
  then have "1 \<le> \<bar>n\<bar>" by linarith
  then have "(of_int 1 :: rat) \<le> of_int \<bar>n\<bar>" by (simp only: of_int_le_iff)
  then have "1 \<le> \<bar>(of_int n :: rat)\<bar>" by simp
  then have "round_double (of_int n) \<noteq> Finite 0" by (rule round_double_nonzero)
  then show ?thesis
    unfolding float_truediv_int_def by (rule fdiv_nonzero)
qed


lemma pow2_strict_mono: "j < k \<Longrightarrow> pow2 j < pow2 k"
  by (simp add: pow2_powi power_int_strict_increasing)

lemma ilog2_upper:
  assumes "0 < a"
  shows "a < pow2 (ilog2 a + 1)"
proof -
  obtain n d where q: "quotient_of a = (n, d)"
    by (cases "quotient_of a")
  have d: "0 < d" using q by (rule quotient_of_denom_pos)
  have a: "a = of_int n / of_int d" using q by (rule quotient_of_div)
  have n: "0 < n"
    using assms d unfolding a by (simp add: zero_less_divide_iff)
  define bn where "bn = bit_length (nat n)"
  define bd where "bd = bit_length (nat d)"
  define k where "k = int bn - int bd"
  have hi: "nat n < 2 ^ bn"
    unfolding bn_def by (rule bit_length_upper)
  have lo: "2 ^ (bd - 1) \<le> nat d"
    unfolding bd_def using d by (intro bit_length_lower) simp
  have "(of_nat (nat n) :: rat) < of_nat (2 ^ bn)"
    using hi by (simp only: of_nat_less_iff)
  then have hi': "(of_int n :: rat) < 2 ^ bn"
    using n by simp
  have "(of_nat (2 ^ (bd - 1)) :: rat) \<le> of_nat (nat d)"
    using lo by (simp only: of_nat_le_iff)
  then have lo': "(2::rat) ^ (bd - 1) \<le> of_int d"
    using d by simp
  have bdpos: "0 < bd"
    unfolding bd_def using d by (subst bit_length.simps) simp
  have "of_int n / of_int d < (2::rat) ^ bn / 2 ^ (bd - 1)"
  proof (rule frac_less)
    show "(0::rat) \<le> of_int n" using n by simp
    show "(of_int n :: rat) < 2 ^ bn" by (rule hi')
    show "(0::rat) < 2 ^ (bd - 1)" by simp
    show "(2::rat) ^ (bd - 1) \<le> of_int d" by (rule lo')
  qed
  also have "\<dots> = pow2 (int bn - int (bd - 1))"
    by (rule pow2_diff_nat [symmetric])
  also have "int bn - int (bd - 1) = k + 1"
    using bdpos by (simp add: k_def)
  finally have above: "a < pow2 (k + 1)"
    unfolding a .
  show ?thesis
  proof (cases "pow2 k \<le> a")
    case True
    then have "ilog2 a = k"
      by (simp add: ilog2_def q Let_def bn_def bd_def k_def)
    then show ?thesis using above by simp
  next
    case False
    then have "ilog2 a = k - 1"
      by (simp add: ilog2_def q Let_def bn_def bd_def k_def)
    then show ?thesis using False by simp
  qed
qed

lemma ilog2_unique:
  assumes "pow2 e \<le> x" and "x < pow2 (e + 1)"
  shows "ilog2 x = e"
proof -
  have x: "0 < x"
    using pow2_pos [of e] assms(1) by linarith
  have lo: "pow2 (ilog2 x) \<le> x" using x by (rule ilog2_le)
  have hi: "x < pow2 (ilog2 x + 1)" using x by (rule ilog2_upper)
  show ?thesis
  proof (rule ccontr)
    assume ne: "ilog2 x \<noteq> e"
    show False
    proof (cases "ilog2 x < e")
      case True
      then have "pow2 (ilog2 x + 1) \<le> pow2 e" by (intro pow2_mono) simp
      with hi assms(1) show False by linarith
    next
      case False
      with ne have "e + 1 \<le> ilog2 x" by simp
      then have "pow2 (e + 1) \<le> pow2 (ilog2 x)" by (rule pow2_mono)
      with lo assms(2) show False by linarith
    qed
  qed
qed

lemma round_half_even_eqI:
  assumes "\<bar>r - of_int m\<bar> < 1 / 2 \<or> (\<bar>r - of_int m\<bar> = 1 / 2 \<and> even m)"
  shows "round_half_even r = m"
proof (cases "of_int m \<le> r")
  case True
  with assms have up: "r \<le> of_int m + 1 / 2" by auto
  have fl: "\<lfloor>r\<rfloor> = m"
    using True up by (intro floor_unique) simp_all
  show ?thesis
  proof (cases "r - of_int m < 1 / 2")
    case True
    then show ?thesis by (simp add: round_half_even_def Let_def fl)
  next
    case False
    with up have tie: "r - of_int m = 1 / 2" by simp
    with assms True have "even m" by auto
    then show ?thesis by (simp add: round_half_even_def Let_def fl tie)
  qed
next
  case False
  with assms have lo: "of_int m - 1 / 2 \<le> r" by auto
  have fl: "\<lfloor>r\<rfloor> = m - 1"
    using False lo by (intro floor_unique) simp_all
  show ?thesis
  proof (cases "of_int m - 1 / 2 < r")
    case True
    then have "1 / 2 < r - of_int (m - 1)" by simp
    then show ?thesis by (simp add: round_half_even_def Let_def fl)
  next
    case False
    with lo have tie: "r = of_int m - 1 / 2" by simp
    with assms have "even m" by auto
    then have "odd (m - 1)" by simp
    moreover have "r - of_int (m - 1) = 1 / 2" using tie by simp
    ultimately show ?thesis by (simp add: round_half_even_def Let_def fl)
  qed
qed

lemma round_double_normal:
  assumes "pow2 e \<le> x" and "x < pow2 (e + 1)" and "- 1022 \<le> e"
    and "\<bar>x / pow2 (e - 52) - of_int m\<bar> < 1 / 2
         \<or> (\<bar>x / pow2 (e - 52) - of_int m\<bar> = 1 / 2 \<and> even m)"
    and "of_int m * pow2 (e - 52) < pow2 1024"
  shows "round_double x = Finite (of_int m * pow2 (e - 52))"
proof -
  have x: "0 < x"
    using pow2_pos [of e] assms(1) by linarith
  have e: "ilog2 x = e"
    using assms(1,2) by (rule ilog2_unique)
  have ax: "\<bar>x\<bar> = x"
    using x by simp
  have q: "max (ilog2 x) (- 1022) - 52 = e - 52"
    using e assms(3) by simp
  have m: "round_half_even (x / pow2 (e - 52)) = m"
    using assms(4) by (rule round_half_even_eqI)
  have nz: "x \<noteq> 0" and nn: "\<not> x < 0"
    using x by simp_all
  have no: "\<not> pow2 1024 \<le> of_int m * pow2 (e - 52)"
    using assms(5) by simp
  show ?thesis
    unfolding round_double_def Let_def ax q m
    by (simp only: nz nn no if_False)
qed

section \<open>Properties of the scorer\<close>

lemma foldl_add_sum_list: "foldl (+) a xs = a + sum_list (xs :: int list)"
  by (induction xs arbitrary: a) (simp_all add: add.assoc)

lemma py_sum_sum_list: "py_sum xs = sum_list xs"
  by (simp add: py_sum_def foldl_add_sum_list)

lemma py_sum_ones: "py_sum (map (\<lambda>r. 1) xs) = int (length xs)"
  by (simp add: py_sum_sum_list sum_list_triv)

lemma true_positives_count: "true_positives rs = spec_count True True rs"
  by (simp add: true_positives_def spec_count_def py_sum_ones)

lemma false_negatives_count: "false_negatives rs = spec_count False True rs"
  by (simp add: false_negatives_def spec_count_def py_sum_ones)

lemma false_positives_count: "false_positives rs = spec_count True False rs"
  by (simp add: false_positives_def spec_count_def py_sum_ones)

lemma true_negatives_count: "true_negatives rs = spec_count False False rs"
  by (simp add: true_negatives_def spec_count_def py_sum_ones)

lemma spec_count_nonneg: "0 \<le> spec_count a b rs"
  by (simp add: spec_count_def)

lemma counts_partition:
  "spec_count True True rs + spec_count False True rs + spec_count True False rs
     + spec_count False False rs = int (length rs)"
  unfolding spec_count_def by (induction rs) auto


lemma avg_response_time_total: "\<exists>z. avg_response_time rs = Inr z"
proof (cases "total_requests rs = 0")
  case True
  then show ?thesis by (simp add: avg_response_time_def)
next
  case False
  then have "\<exists>z. float_truediv_int (py_sum_float (map time_ms rs)) (total_requests rs) = Inr z"
    by (rule float_truediv_int_total)
  with False show ?thesis
    by (simp add: avg_response_time_def)
qed

lemma avg_response_time_Nil: "avg_response_time [] = Inr (Finite 0)"
  by (simp add: avg_response_time_def total_requests_def)

lemma accuracy_eq:
  "accuracy rs = Inr (spec_rate (true_positives rs + true_negatives rs) (total_requests rs))"
  by (simp add: accuracy_def py_truediv_def spec_rate_def)

lemma precision_eq:
  "precision rs = Inr (spec_rate (true_positives rs) (true_positives rs + false_positives rs))"
  by (simp add: precision_def py_truediv_def spec_rate_def)

lemma recall_eq:
  "recall rs = Inr (spec_rate (true_positives rs) (true_positives rs + false_negatives rs))"
  by (simp add: recall_def py_truediv_def spec_rate_def)


lemma score_eq:
  assumes "avg_response_time rs = Inr z"
  shows "score rs =
     Inr \<lparr> Total_Requests = total_requests rs,
           Average_Response = z,
           True_Positives = true_positives rs,
           False_Negatives = false_negatives rs,
           False_Positives = false_positives rs,
           True_Negatives = true_negatives rs,
           Accuracy = spec_rate (true_positives rs + true_negatives rs) (total_requests rs),
           Precision = spec_rate (true_positives rs) (true_positives rs + false_positives rs),
           Recall = spec_rate (true_positives rs) (true_positives rs + false_negatives rs) \<rparr>"
  unfolding score_def by (simp add: assms accuracy_eq precision_eq recall_eq)

lemma score_avg: "score rs = Inr rep \<Longrightarrow> avg_response_time rs = Inr (Average_Response rep)"
proof -
  assume sc: "score rs = Inr rep"
  obtain z where z: "avg_response_time rs = Inr z"
    using avg_response_time_total by blast
  from sc score_eq [OF z] have "Average_Response rep = z" by auto
  with z show ?thesis by simp
qed

text \<open>
  C3. For every sequence of verdicts the scorer returns a report whose four counts are
  the numbers of verdicts with (predicted, expected) equal to (true, true),
  (false, true), (true, false) and (false, false), whose accuracy is
  (tp + tn) / total, precision tp / (tp + fp) and recall tp / (tp + fn), each 0 when its
  denominator is 0.
\<close>

theorem score_computes_rates:
  "\<exists>rep. score verdicts = Inr rep
     \<and> True_Positives rep = spec_count True True verdicts
     \<and> False_Negatives rep = spec_count False True verdicts
     \<and> False_Positives rep = spec_count True False verdicts
     \<and> True_Negatives rep = spec_count False False verdicts
     \<and> Total_Requests rep = int (length verdicts)
     \<and> Accuracy rep = spec_rate (True_Positives rep + True_Negatives rep) (Total_Requests rep)
     \<and> Precision rep = spec_rate (True_Positives rep) (True_Positives rep + False_Positives rep)
     \<and> Recall rep = spec_rate (True_Positives rep) (True_Positives rep + False_Negatives rep)"
proof -
  obtain z where z: "avg_response_time verdicts = Inr z"
    using avg_response_time_total by blast
  show ?thesis
    by (simp add: score_eq [OF z] true_positives_count false_negatives_count
        false_positives_count true_negatives_count total_requests_def)
qed

text \<open>
  C4. For every sequence of verdicts, the empty one included, the four counts of the
  report add up to its total number of requests, which is the length of the sequence.
\<close>

theorem confusion_counts_sum_to_total:
  "\<exists>rep. score verdicts = Inr rep
     \<and> True_Positives rep + False_Negatives rep + False_Positives rep + True_Negatives rep
         = Total_Requests rep
     \<and> Total_Requests rep = int (length verdicts)"
proof -
  obtain z where z: "avg_response_time verdicts = Inr z"
    using avg_response_time_total by blast
  show ?thesis
    using counts_partition [of verdicts]
    by (simp add: score_eq [OF z] true_positives_count false_negatives_count
        false_positives_count true_negatives_count total_requests_def)
qed

text \<open>
  C5. On the empty sequence the scorer returns total 0, average latency 0 and the
  three rates 0; and on every sequence none of its four divisions raises
  \<^verbatim>\<open>ZeroDivisionError\<close>, so the scorer returns a report.
\<close>

theorem score_empty_no_division_error:
  "score [] = Inr \<lparr> Total_Requests = 0, Average_Response = Finite 0, True_Positives = 0,
                    False_Negatives = 0, False_Positives = 0, True_Negatives = 0,
                    Accuracy = 0, Precision = 0, Recall = 0 \<rparr>
   \<and> avg_response_time verdicts \<noteq> Inl ZeroDivisionError
   \<and> accuracy verdicts \<noteq> Inl ZeroDivisionError
   \<and> precision verdicts \<noteq> Inl ZeroDivisionError
   \<and> recall verdicts \<noteq> Inl ZeroDivisionError
   \<and> (\<exists>rep. score verdicts = Inr rep)"
proof -
  obtain z where z: "avg_response_time verdicts = Inr z"
    using avg_response_time_total by blast
  have e: "score [] = Inr \<lparr> Total_Requests = 0, Average_Response = Finite 0, True_Positives = 0,
                    False_Negatives = 0, False_Positives = 0, True_Negatives = 0,
                    Accuracy = 0, Precision = 0, Recall = 0 \<rparr>"
    by (simp add: score_eq [OF avg_response_time_Nil] true_positives_count
        false_negatives_count false_positives_count true_negatives_count total_requests_def
        spec_count_def spec_rate_def)
  show ?thesis
    by (simp add: e z score_eq [OF z] accuracy_eq precision_eq recall_eq)
qed

text \<open>
  The additions and divisions of the two orders of the latencies 0.1, 0.2 and 0.3.
\<close>

lemma round_double_three: "round_double (of_int 3) = Finite 3"
  unfolding of_int_numeral
  by (rule round_double_normal [where e = 1 and m = 6755399441055744, THEN trans])
    (simp_all add: pow2_def)

lemma fdiv_Finite: "b \<noteq> 0 \<Longrightarrow> fdiv (Finite a) (Finite b) = Inr (round_double (a / b))"
  by simp

lemma sum_a: "fadd (Finite 0) double_0_1 = double_0_1"
  unfolding double_0_1_def fadd.simps
  by (rule round_double_normal [where e = "- 4" and m = 7205759403792794, THEN trans])
    (simp_all add: pow2_def)

lemma sum_ab: "fadd double_0_1 double_0_2 = Finite (1351079888211149 / 4503599627370496)"
  unfolding double_0_1_def double_0_2_def fadd.simps
  by (rule round_double_normal [where e = "- 2" and m = 5404319552844596, THEN trans])
    (simp_all add: pow2_def)

lemma sum_abc:
  "fadd (Finite (1351079888211149 / 4503599627370496)) double_0_3
     = Finite (1351079888211149 / 2251799813685248)"
  unfolding double_0_3_def fadd.simps
  by (rule round_double_normal [where e = "- 1" and m = 5404319552844596, THEN trans])
    (simp_all add: pow2_def)

lemma sum_c: "fadd (Finite 0) double_0_3 = double_0_3"
  unfolding double_0_3_def fadd.simps
  by (rule round_double_normal [where e = "- 2" and m = 5404319552844595, THEN trans])
    (simp_all add: pow2_def)

lemma sum_cb: "fadd double_0_3 double_0_2 = Finite (1 / 2)"
  unfolding double_0_3_def double_0_2_def fadd.simps
  by (rule round_double_normal [where e = "- 1" and m = 4503599627370496, THEN trans])
    (simp_all add: pow2_def)

lemma sum_cba: "fadd (Finite (1 / 2)) double_0_1 = Finite (5404319552844595 / 9007199254740992)"
  unfolding double_0_1_def fadd.simps
  by (rule round_double_normal [where e = "- 1" and m = 5404319552844595, THEN trans])
    (simp_all add: pow2_def)

lemma avg_abc:
  "fdiv (Finite (1351079888211149 / 2251799813685248)) (Finite 3)
     = Inr (Finite (7205759403792795 / 36028797018963968))"
proof -
  have "fdiv (Finite (1351079888211149 / 2251799813685248)) (Finite 3)
      = Inr (round_double (1351079888211149 / 2251799813685248 / 3))"
    by (rule fdiv_Finite) simp
  also have "round_double (1351079888211149 / 2251799813685248 / 3)
      = Finite (7205759403792795 / 36028797018963968)"
    by (rule round_double_normal [where e = "- 3" and m = 7205759403792795, THEN trans])
      (simp_all add: pow2_def)
  finally show ?thesis .
qed

lemma avg_cba:
  "fdiv (Finite (5404319552844595 / 9007199254740992)) (Finite 3)
     = Inr (Finite (7205759403792793 / 36028797018963968))"
proof -
  have "fdiv (Finite (5404319552844595 / 9007199254740992)) (Finite 3)
      = Inr (round_double (5404319552844595 / 9007199254740992 / 3))"
    by (rule fdiv_Finite) simp
  also have "round_double (5404319552844595 / 9007199254740992 / 3)
      = Finite (7205759403792793 / 36028797018963968)"
    by (rule round_double_normal [where e = "- 3" and m = 7205759403792793, THEN trans])
      (simp_all add: pow2_def)
  finally show ?thesis .
qed

lemma avg_response_time_abc:
  "avg_response_time [verdict_a, verdict_b, verdict_c]
     = Inr (Finite (7205759403792795 / 36028797018963968))"
proof -
  have "py_sum_float (map time_ms [verdict_a, verdict_b, verdict_c])
      = fadd (fadd (fadd (Finite 0) double_0_1) double_0_2) double_0_3"
    by (simp add: py_sum_float_def verdict_a_def verdict_b_def verdict_c_def del: fadd.simps)
  also have "\<dots> = Finite (1351079888211149 / 2251799813685248)"
    by (simp only: sum_a sum_ab sum_abc)
  finally have s: "py_sum_float (map time_ms [verdict_a, verdict_b, verdict_c])
      = Finite (1351079888211149 / 2251799813685248)" .
  have "avg_response_time [verdict_a, verdict_b, verdict_c]
      = float_truediv_int (py_sum_float (map time_ms [verdict_a, verdict_b, verdict_c])) 3"
    by (simp add: avg_response_time_def total_requests_def)
  also have "\<dots> = Inr (Finite (7205759403792795 / 36028797018963968))"
    by (simp only: s float_truediv_int_def round_double_three avg_abc)
  finally show ?thesis .
qed

lemma avg_response_time_cba:
  "avg_response_time [verdict_c, verdict_b, verdict_a]
     = Inr (Finite (7205759403792793 / 36028797018963968))"
proof -
  have "py_sum_float (map time_ms [verdict_c, verdict_b, verdict_a])
      = fadd (fadd (fadd (Finite 0) double_0_3) double_0_2) double_0_1"
    by (simp add: py_sum_float_def verdict_a_def verdict_b_def verdict_c_def del: fadd.simps)
  also have "\<dots> = Finite (5404319552844595 / 9007199254740992)"
    by (simp only: sum_c sum_cb sum_cba)
  finally have s: "py_sum_float (map time_ms [verdict_c, verdict_b, verdict_a])
      = Finite (5404319552844595 / 9007199254740992)" .
  have "avg_response_time [verdict_c, verdict_b, verdict_a]
      = float_truediv_int (py_sum_float (map time_ms [verdict_c, verdict_b, verdict_a])) 3"
    by (simp add: avg_response_time_def total_requests_def)
  also have "\<dots> = Inr (Finite (7205759403792793 / 36028797018963968))"
    by (simp only: s float_truediv_int_def round_double_three avg_cba)
  finally show ?thesis .
qed

lemma spec_count_mset:
  "mset rs = mset rs' \<Longrightarrow> spec_count a b rs = spec_count a b rs'"
proof -
  assume eq: "mset rs = mset rs'"
  have "size (filter_mset (\<lambda>v. predicted v = a \<and> expected v = b) (mset rs))
      = size (filter_mset (\<lambda>v. predicted v = a \<and> expected v = b) (mset rs'))"
    by (simp add: eq)
  then show ?thesis
    unfolding spec_count_def by (simp only: mset_filter [symmetric] size_mset)
qed


text \<open>
  C6, as amended. Two sequences with the same verdicts in any order get reports with
  the same total, the same four counts and the same accuracy, precision and recall.
\<close>

theorem score_counts_and_rates_order_independent:
  assumes "mset verdicts = mset verdicts'"
  shows "\<exists>rep rep'. score verdicts = Inr rep \<and> score verdicts' = Inr rep'
     \<and> Total_Requests rep = Total_Requests rep'
     \<and> True_Positives rep = True_Positives rep'
     \<and> False_Negatives rep = False_Negatives rep'
     \<and> False_Positives rep = False_Positives rep'
     \<and> True_Negatives rep = True_Negatives rep'
     \<and> Accuracy rep = Accuracy rep'
     \<and> Precision rep = Precision rep'
     \<and> Recall rep = Recall rep'"
proof -
  obtain z where z: "avg_response_time verdicts = Inr z"
    using avg_response_time_total by blast
  obtain z' where z': "avg_response_time verdicts' = Inr z'"
    using avg_response_time_total by blast
  have len: "length verdicts = length verdicts'"
    using assms by (rule mset_eq_length)
  show ?thesis
    by (simp add: score_eq [OF z] score_eq [OF z'] true_positives_count false_negatives_count
        false_positives_count true_negatives_count total_requests_def
        spec_count_mset [OF assms] len)
qed

theorem score_counts_and_rates_order_independent_witness:
  "mset [verdict_a, verdict_b, verdict_c] = mset [verdict_c, verdict_b, verdict_a]
   \<and> (\<exists>rep rep'. score [verdict_a, verdict_b, verdict_c] = Inr rep
         \<and> score [verdict_c, verdict_b, verdict_a] = Inr rep'
         \<and> Total_Requests rep = Total_Requests rep'
         \<and> True_Positives rep = True_Positives rep'
         \<and> False_Negatives rep = False_Negatives rep'
         \<and> False_Positives rep = False_Positives rep'
         \<and> True_Negatives rep = True_Negatives rep'
         \<and> Accuracy rep = Accuracy rep'
         \<and> Precision rep = Precision rep'
         \<and> Recall rep = Recall rep')"
proof -
  have m: "mset [verdict_a, verdict_b, verdict_c] = mset [verdict_c, verdict_b, verdict_a]"
    by (simp add: add_mset_commute)
  from m score_counts_and_rates_order_independent [OF m] show ?thesis by (rule conjI)
qed

text \<open>
  The claim as stated includes the average latency, which is a sum of doubles: the
  latencies 0.1, 0.2 and 0.3 average to 0.20000000000000004 in this order and to
  0.19999999999999998 in the reverse order, so the two reports differ.
\<close>

theorem average_latency_order_dependent_counterexample:
  "mset [verdict_a, verdict_b, verdict_c] = mset [verdict_c, verdict_b, verdict_a]
   \<and> avg_response_time [verdict_a, verdict_b, verdict_c]
       = Inr (Finite (7205759403792795 / 36028797018963968))
   \<and> avg_response_time [verdict_c, verdict_b, verdict_a]
       = Inr (Finite (7205759403792793 / 36028797018963968))
   \<and> score [verdict_a, verdict_b, verdict_c] \<noteq> score [verdict_c, verdict_b, verdict_a]"
proof -
  have m: "mset [verdict_a, verdict_b, verdict_c] = mset [verdict_c, verdict_b, verdict_a]"
    by (simp add: add_mset_commute)
  have ne: "score [verdict_a, verdict_b, verdict_c] \<noteq> score [verdict_c, verdict_b, verdict_a]"
  proof
    assume eq: "score [verdict_a, verdict_b, verdict_c] = score [verdict_c, verdict_b, verdict_a]"
    have "score [verdict_a, verdict_b, verdict_c]
        = Inr \<lparr> Total_Requests = total_requests [verdict_a, verdict_b, verdict_c],
           Average_Response = Finite (7205759403792795 / 36028797018963968),
           True_Positives = true_positives [verdict_a, verdict_b, verdict_c],
           False_Negatives = false_negatives [verdict_a, verdict_b, verdict_c],
           False_Positives = false_positives [verdict_a, verdict_b, verdict_c],
           True_Negatives = true_negatives [verdict_a, verdict_b, verdict_c],
           Accuracy = spec_rate (true_positives [verdict_a, verdict_b, verdict_c]
                        + true_negatives [verdict_a, verdict_b, verdict_c])
                        (total_requests [verdict_a, verdict_b, verdict_c]),
           Precision = spec_rate (true_positives [verdict_a, verdict_b, verdict_c])
                        (true_positives [verdict_a, verdict_b, verdict_c]
                         + false_positives [verdict_a, verdict_b, verdict_c]),
           Recall = spec_rate (true_positives [verdict_a, verdict_b, verdict_c])
                        (true_positives [verdict_a, verdict_b, verdict_c]
                         + false_negatives [verdict_a, verdict_b, verdict_c]) \<rparr>"
      by (rule score_eq [OF avg_response_time_abc])
    then have "avg_response_time [verdict_c, verdict_b, verdict_a]
        = Inr (Finite (7205759403792795 / 36028797018963968))"
      using score_avg [of "[verdict_c, verdict_b, verdict_a]"] eq by simp
    then show False
      by (simp add: avg_response_time_cba)
  qed
  from m avg_response_time_abc avg_response_time_cba ne show ?thesis
    by (intro conjI)
qed

lemma spec_rate_bounds: "0 \<le> n \<Longrightarrow> n \<le> d \<Longrightarrow> 0 \<le> spec_rate n d \<and> spec_rate n d \<le> 1"
  by (simp add: spec_rate_def divide_le_eq_1)

text \<open>
  C10. For every sequence of verdicts the accuracy, the precision and the recall of the
  report lie between 0 and 1.
\<close>


text \<open>
  C10. For every sequence of verdicts the accuracy, the precision and the recall of the
  report lie between 0 and 1.
\<close>

theorem score_rates_bounded:
  "\<exists>rep. score verdicts = Inr rep
     \<and> 0 \<le> Accuracy rep \<and> Accuracy rep \<le> 1
     \<and> 0 \<le> Precision rep \<and> Precision rep \<le> 1
     \<and> 0 \<le> Recall rep \<and> Recall rep \<le> 1"
proof -
  let ?tp = "spec_count True True verdicts" and ?fn = "spec_count False True verdicts"
  let ?fp = "spec_count True False verdicts" and ?tn = "spec_count False False verdicts"
  obtain z where z: "avg_response_time verdicts = Inr z"
    using avg_response_time_total by blast
  have nn: "0 \<le> ?tp" "0 \<le> ?fn" "0 \<le> ?fp" "0 \<le> ?tn"
    by (rule spec_count_nonneg)+
  have tot: "?tp + ?tn \<le> int (length verdicts)"
    using counts_partition [of verdicts] nn by linarith
  have a: "0 \<le> spec_rate (?tp + ?tn) (int (length verdicts)) \<and> spec_rate (?tp + ?tn) (int (length verdicts)) \<le> 1"
    using nn tot by (intro spec_rate_bounds) linarith+
  have p: "0 \<le> spec_rate ?tp (?tp + ?fp) \<and> spec_rate ?tp (?tp + ?fp) \<le> 1"
    using nn by (intro spec_rate_bounds) linarith+
  have r: "0 \<le> spec_rate ?tp (?tp + ?fn) \<and> spec_rate ?tp (?tp + ?fn) \<le> 1"
    using nn by (intro spec_rate_bounds) linarith+
  show ?thesis
    using a p r
    by (simp add: score_eq [OF z] true_positives_count false_negatives_count
        false_positives_count true_negatives_count total_requests_def)
qed

section \<open>Properties of the request runner\<close>

















text \<open>
  When the handler's own \<^verbatim>\<open>print\<close> raises, the exception leaves \<^verbatim>\<open>test_provider\<close>
  and no verdict is returned.
\<close>

lemma handler_print_escapes:
  "fst (test_provider \<lparr> clock = steady_clock, network = flaky_network, stdout = ascii_stdout \<rparr>
          (PROVIDERS Map.empty ! 5) [''a@x.org'', ''b@x.org''] True
          \<lparr> ticks = 0, sent = [], printed = [] \<rparr>)
     = Inl UnicodeEncodeError"
  by (simp add: test_provider_def test_one_def attempt_def send_def time_time_def py_print_def
      Let_def flaky_network_def ascii_stdout_def del: fadd.simps fmul.simps)

end
